theory Spec2Isabelle
  imports Complex_Main "HOL-Library.Multiset" "HOL-Library.AList" "HOL-Library.Sublist"
begin

section \<open>Python values and errors\<close>

text \<open>
  Every exception the modelled functions can raise is a value of \<open>py_error\<close>; a function
  that may raise returns \<open>py_error + 'a\<close> with \<open>Inl\<close> for the exception.
  Numbers (pitches, times, velocities, numpy cells) are modelled as \<open>real\<close>: the model
  reads Python floats as the reals they denote and has no NaN.

  \<open>ShapeError\<close> stands for the exception numpy raises when \<open>np.array\<close> is given
  columns of different lengths and the result is then used as a two-dimensional array
  (a \<open>ValueError\<close> at \<open>np.array\<close> in current numpy; in older releases an object array
  is built and the following \<open>np.concatenate(..., axis=1)\<close> or \<open>mat[:, 1]\<close> raises).
\<close>

datatype py_error =
    IndexError
  | KeyError string
  | TypeError
  | AttributeError
  | ValueError
  | ZeroDivisionError
  | AssertionError string
  | ShapeError

section \<open>Ground-truth records (\<open>asmd/dataset_utils.py\<close>)\<close>

record alignment =
  pitches :: "real list"
  onsets :: "real list"
  offsets :: "real list"
  velocities :: "real list"

record pedal =
  p_times :: "real list"
  p_values :: "real list"

record gt =
  instrument :: real
  precise_alignment :: alignment
  broad_alignment :: alignment
  misaligned :: alignment
  score :: alignment
  sustain :: pedal
  sostenuto :: pedal
  soft :: pedal

text \<open>\<open>gt[score_type]\<close> followed by the note fields: only the four alignment kinds hold notes.\<close>

definition gt_lookup :: "gt \<Rightarrow> string \<Rightarrow> py_error + alignment" where
  "gt_lookup g k =
     (if k = ''precise_alignment'' then Inr (precise_alignment g)
      else if k = ''broad_alignment'' then Inr (broad_alignment g)
      else if k = ''misaligned'' then Inr (misaligned g)
      else if k = ''score'' then Inr (score g)
      else if k = ''sustain'' \<or> k = ''sostenuto'' \<or> k = ''soft'' then Inl (KeyError ''pitches'')
      else if k = ''instrument'' then Inl TypeError
      else Inl (KeyError k))"

subsection \<open>\<open>chose_score_type\<close>\<close>

text \<open>
  One arm of the \<open>if\<close>/\<open>elif\<close> chain:
  \<^verbatim>\<open>k in score_type and len(gts[0][k]['pitches']) > 0\<close>.
  \<open>gts[0]\<close> is evaluated only when \<open>k\<close> is requested, and raises on an empty list.
\<close>

definition usable :: "string list \<Rightarrow> gt list \<Rightarrow> string \<Rightarrow> (gt \<Rightarrow> alignment) \<Rightarrow> py_error + bool" where
  "usable score_type gts k sel =
     (if k \<in> set score_type
      then (case gts of [] \<Rightarrow> Inl IndexError | g # _ \<Rightarrow> Inr (length (pitches (sel g)) > 0))
      else Inr False)"

definition chose_score_type :: "string list \<Rightarrow> gt list \<Rightarrow> py_error + string" where
  "chose_score_type score_type gts =
     (if length score_type > 1 then
        (case usable score_type gts ''precise_alignment'' precise_alignment of
           Inl e \<Rightarrow> Inl e
         | Inr True \<Rightarrow> Inr ''precise_alignment''
         | Inr False \<Rightarrow>
        (case usable score_type gts ''broad_alignment'' broad_alignment of
           Inl e \<Rightarrow> Inl e
         | Inr True \<Rightarrow> Inr ''broad_alignment''
         | Inr False \<Rightarrow>
        (case usable score_type gts ''misaligned'' misaligned of
           Inl e \<Rightarrow> Inl e
         | Inr True \<Rightarrow> Inr ''misaligned''
         | Inr False \<Rightarrow> Inr ''score'')))
      else (case score_type of [] \<Rightarrow> Inl IndexError | k # _ \<Rightarrow> Inr k))"

subsection \<open>\<open>get_score_mat\<close>\<close>

definition sentinel :: real where
  "sentinel = - 255"

text \<open>\<^verbatim>\<open>np.append(xs, [-255] * k)\<close>: a list times a negative number is the empty list.\<close>

definition pad :: "real list \<Rightarrow> int \<Rightarrow> real list" where
  "pad xs k = xs @ replicate (nat k) sentinel"

text \<open>\<^verbatim>\<open>np.full_like(xs, v)\<close>\<close>

definition full_like :: "real list \<Rightarrow> real \<Rightarrow> real list" where
  "full_like xs v = replicate (length xs) v"

text \<open>The body of the loop over the ground truths, up to the six columns of source \<open>i\<close>.\<close>

definition score_columns :: "nat \<Rightarrow> gt \<Rightarrow> alignment \<Rightarrow> real list list" where
  "score_columns i g n =
     (let pitches0 = pitches n;
          ons0 = (if length (onsets n) = 0 then full_like pitches0 sentinel else onsets n);
          missing = int (length pitches0) - int (length ons0);
          pitches1 = (if missing < 0 then pad pitches0 (- missing) else pitches0);
          ons1 = (if missing < 0 then ons0 else if missing > 0 then pad ons0 missing else ons0);
          offs0 = pad (offsets n) missing;
          offs1 = (if length offs0 = 0 then full_like ons1 sentinel else offs0);
          vel0 = pad (velocities n) missing;
          vel1 = (if length vel0 = 0 then full_like ons1 sentinel else vel0);
          missing2 = int (length pitches1) - int (length vel1);
          pitches2 = (if missing2 < 0 then pad pitches1 (- missing2) else pitches1);
          ons2 = (if missing2 < 0 then pad ons1 (- missing2) else ons1);
          offs2 = (if missing2 < 0 then pad offs1 (- missing2) else offs1);
          vel2 = (if missing2 < 0 then vel1 else if missing2 > 0 then pad vel1 missing2 else vel1);
          num = full_like ons2 (real i);
          instr = full_like ons2 (instrument g)
      in [pitches2, ons2, offs2, vel2, instr, num])"

text \<open>
  \<^verbatim>\<open>np.array([pitches, ons, offs, vel, instr, num])\<close> is a 6 x n array only when the
  columns have one length.
\<close>

definition rectangular :: "real list list \<Rightarrow> bool" where
  "rectangular cols = list_all (\<lambda>c. length c = length (hd cols)) cols"

definition np_array :: "real list list \<Rightarrow> py_error + real list list" where
  "np_array cols = (if rectangular cols then Inr cols else Inl ShapeError)"

fun score_blocks :: "nat \<Rightarrow> gt list \<Rightarrow> string \<Rightarrow> py_error + real list list list" where
  "score_blocks i [] k = Inr []"
| "score_blocks i (g # gs) k =
     (case gt_lookup g k of
        Inl e \<Rightarrow> Inl e
      | Inr n \<Rightarrow>
        (case np_array (score_columns i g n) of
           Inl e \<Rightarrow> Inl e
         | Inr m \<Rightarrow>
           (case score_blocks (Suc i) gs k of
              Inl e \<Rightarrow> Inl e
            | Inr ms \<Rightarrow> Inr (m # ms))))"

text \<open>\<^verbatim>\<open>np.concatenate(mat, axis=1)\<close> on 6 x n blocks.\<close>

definition concatenate_axis1 :: "real list list list \<Rightarrow> real list list" where
  "concatenate_axis1 mat = map (\<lambda>c. concat (map (\<lambda>m. m ! c) mat)) [0..<6]"

text \<open>The matrix before the final ordering: one row per note.\<close>

definition score_rows :: "gt list \<Rightarrow> string \<Rightarrow> py_error + real list list" where
  "score_rows gts k =
     (case score_blocks 0 gts k of
        Inl e \<Rightarrow> Inl e
      | Inr mat \<Rightarrow>
        (if length mat > 1 then Inr (transpose (concatenate_axis1 mat))
         else (case mat of [] \<Rightarrow> Inl IndexError | m # _ \<Rightarrow> Inr (transpose m))))"

text \<open>
  \<^verbatim>\<open>mat[mat[:, 1].argsort()]\<close>. The call names no sort kind, so numpy uses its default,
  which its documentation gives as not stable; which permutation comes back for equal
  keys depends on the numpy build. The model therefore takes \<open>argsort\<close> as a parameter,
  and \<open>is_argsort\<close> is what numpy promises of it: the result is a permutation of the
  indices that puts the keys in non-decreasing order.
\<close>

definition is_argsort :: "(real list \<Rightarrow> nat list) \<Rightarrow> bool" where
  "is_argsort f =
     (\<forall>ks. mset (f ks) = mset [0..<length ks] \<and> sorted (map (\<lambda>j. ks ! j) (f ks)))"

definition get_score_mat ::
  "(real list \<Rightarrow> nat list) \<Rightarrow> gt list \<Rightarrow> string list \<Rightarrow> py_error + real list list" where
  "get_score_mat argsort gts score_type =
     (case chose_score_type score_type gts of
        Inl e \<Rightarrow> Inl e
      | Inr k \<Rightarrow>
        (case score_rows gts k of
           Inl e \<Rightarrow> Inl e
         | Inr rows \<Rightarrow> Inr (map (\<lambda>j. rows ! j) (argsort (map (\<lambda>r. r ! 1) rows)))))"


subsection \<open>\<open>get_pedaling_mat\<close>\<close>

text \<open>
  The control changes of one track: the three pedals in the order sustain, sostenuto,
  soft, each row \<open>[time, sustain, sostenuto, soft]\<close> with \<open>-1\<close> for the pedals the
  event does not touch; \<open>zip\<close> stops at the shorter of times and values. Python's
  \<open>list.sort\<close> is stable, as \<open>sort_key\<close> is.
\<close>

definition cc_track_pedaling :: "gt \<Rightarrow> real list list" where
  "cc_track_pedaling g =
     sort_key (\<lambda>row. row ! 0)
       (map (\<lambda>(t, v). [t, v, - 1, - 1]) (zip (p_times (sustain g)) (p_values (sustain g)))
        @ map (\<lambda>(t, v). [t, - 1, v, - 1]) (zip (p_times (sostenuto g)) (p_values (sostenuto g)))
        @ map (\<lambda>(t, v). [t, - 1, - 1, v]) (zip (p_times (soft g)) (p_values (soft g))))"

text \<open>Python's \<open>round\<close> (half to even) and \<open>int\<close> (towards zero) on a float.\<close>

definition py_round :: "real \<Rightarrow> int" where
  "py_round x =
     (let f = \<lfloor>x\<rfloor>; d = x - of_int f
      in if d < 1 / 2 then f else if 1 / 2 < d then f + 1 else if even f then f else f + 1)"

definition py_int :: "real \<Rightarrow> int" where
  "py_int x = (if x < 0 then \<lceil>x\<rceil> else \<lfloor>x\<rfloor>)"

text \<open>\<open>utils.nframes\<close> and \<open>utils.time2frame\<close>; both divide by the hop size.\<close>

definition nframes :: "real \<Rightarrow> real \<Rightarrow> real \<Rightarrow> py_error + real" where
  "nframes dur hop_size win_len =
     (if hop_size = 0 then Inl ZeroDivisionError else Inr ((dur - win_len) / hop_size + 1))"

definition time2frame :: "real \<Rightarrow> real \<Rightarrow> real \<Rightarrow> py_error + int" where
  "time2frame time hop_size win_len =
     (if hop_size = 0 then Inl ZeroDivisionError
      else Inr (py_round ((time - win_len / 2) / hop_size)))"

text \<open>A slice bound of Python and numpy on a sequence of length \<open>n\<close>.\<close>

definition slice_bound :: "int \<Rightarrow> nat \<Rightarrow> nat" where
  "slice_bound i n = (if i < 0 then nat (max (i + int n) 0) else min (nat i) n)"

text \<open>\<^verbatim>\<open>m[lo:hi, col] = v\<close>\<close>

definition assign_col :: "real list list \<Rightarrow> nat \<Rightarrow> nat \<Rightarrow> nat \<Rightarrow> real \<Rightarrow> real list list" where
  "assign_col m lo hi col v =
     map (\<lambda>i. if lo \<le> i \<and> i < hi then (m ! i)[col := v] else m ! i) [0..<length m]"

text \<open>\<^verbatim>\<open>np.argmax(cc[1:]) + 1\<close> on the three pedal cells: the first position of the maximum.\<close>

definition type_of_cc :: "real list \<Rightarrow> nat" where
  "type_of_cc cc =
     (if cc ! 2 \<le> cc ! 1 \<and> cc ! 3 \<le> cc ! 1 then 1 else if cc ! 3 \<le> cc ! 2 then 2 else 3)"

text \<open>
  The loop over the control changes. \<open>last_values\<close> maps a column to the frame and the
  value of its last change.
\<close>

fun parse_cc ::
  "real list list \<Rightarrow> real \<Rightarrow> real \<Rightarrow> (nat \<Rightarrow> int \<times> real) \<Rightarrow> real list list
     \<Rightarrow> py_error + ((nat \<Rightarrow> int \<times> real) \<times> real list list)" where
  "parse_cc [] hop winlen last_values frames = Inr (last_values, frames)"
| "parse_cc (cc # ccs) hop winlen last_values frames =
     (case time2frame (cc ! 0) hop winlen of
        Inl e \<Rightarrow> Inl e
      | Inr frame_idx \<Rightarrow>
        (let ty = type_of_cc cc;
             n = length frames;
             frames' = assign_col frames (slice_bound (fst (last_values ty)) n)
                         (slice_bound frame_idx n) ty (snd (last_values ty))
         in parse_cc ccs hop winlen (last_values(ty := (frame_idx, cc ! ty))) frames'))"

text \<open>\<^verbatim>\<open>frame_track_pedaling[last_values[t]["time"]:, t] = last_values[t]["value"]\<close> for t = 1, 2, 3.\<close>

definition fill_tail :: "(nat \<Rightarrow> int \<times> real) \<Rightarrow> real list list \<Rightarrow> real list list" where
  "fill_tail last_values frames =
     foldl (\<lambda>m ty. assign_col m (slice_bound (fst (last_values ty)) (length m)) (length m)
                      ty (snd (last_values ty)))
       frames [1, 2, 3]"

text \<open>
  The frame matrix of one track. \<open>dur\<close> is the value of \<open>dataset.get_score_duration(idx)\<close>,
  a method of the \<open>Dataset\<close> class. \<open>np.zeros\<close> refuses a negative number of rows.
\<close>

definition frame_track_pedaling :: "gt \<Rightarrow> real \<Rightarrow> real \<Rightarrow> real \<Rightarrow> py_error + real list list" where
  "frame_track_pedaling g dur winlen hop =
     (case nframes dur hop winlen of
        Inl e \<Rightarrow> Inl e
      | Inr nf \<Rightarrow>
        (let n_frames = py_int nf + 1
         in if n_frames < 0 then Inl ValueError
            else
              (case parse_cc (cc_track_pedaling g) hop winlen (\<lambda>ty. (0, 0))
                      (map (\<lambda>i. [real i * hop + winlen / 2, 0, 0, 0]) [0..<nat n_frames]) of
                 Inl e \<Rightarrow> Inl e
               | Inr (last_values, frames) \<Rightarrow>
                   Inr (if length (cc_track_pedaling g) > 0 then fill_tail last_values frames
                        else frames))))"

fun get_pedaling_mat ::
  "gt list \<Rightarrow> real \<Rightarrow> bool \<Rightarrow> real \<Rightarrow> real \<Rightarrow> py_error + real list list list" where
  "get_pedaling_mat [] dur frame_based winlen hop = Inr []"
| "get_pedaling_mat (g # gs) dur frame_based winlen hop =
     (case (if \<not> frame_based then Inr (cc_track_pedaling g)
            else frame_track_pedaling g dur winlen hop) of
        Inl e \<Rightarrow> Inl e
      | Inr m \<Rightarrow>
        (case get_pedaling_mat gs dur frame_based winlen hop of
           Inl e \<Rightarrow> Inl e
         | Inr ms \<Rightarrow> Inr (m # ms)))"


subsection \<open>\<open>filter\<close>\<close>

text \<open>
  The corpus tree. A dataset's \<open>ground_truth\<close> is a dictionary from kind to level; a
  song's \<open>sources\<close> key is optional (the code asks \<open>"sources" in song.keys()\<close>).
  \<open>s_recording\<close> is \<open>song['recording']['path']\<close> and \<open>s_sources\<close> is
  \<open>song['sources']['path']\<close>.
\<close>

record song =
  s_included :: bool
  s_instruments :: "string list"
  s_composer :: string
  s_groups :: "string list"
  s_ground_truth :: "gt list"
  s_recording :: "string list"
  s_sources :: "string list option"

record dataset =
  d_name :: string
  d_included :: bool
  d_ensemble :: bool
  d_ground_truth :: "(string \<times> int) list"
  d_songs :: "song list"

text \<open>
  A row of \<open>paths\<close> is \<open>[mix, source, gts]\<close>: \<open>source\<close> is a list of paths or the one
  path of the target instrument, \<open>gts\<close> the whole ground-truth list or the one record
  of the target instrument.
\<close>

datatype source_sel = SourceList "string list" | SourceOne string

datatype gts_sel = GtsList "gt list" | GtsOne gt

type_synonym path_row = "string list \<times> source_sel \<times> gts_sel"

text \<open>
  The \<open>Dataset\<close> object as far as \<open>filter\<close> touches it. \<open>chunks\<close> is the dictionary
  \<open>_chunks\<close> from dataset name to \<open>[start, end]\<close>, in insertion order.
\<close>

record corpus =
  datasets :: "dataset list"
  paths :: "path_row list"
  chunks :: "(string \<times> nat \<times> nat) list"

text \<open>
  The keyword arguments of \<open>filter\<close>. \<open>c_ground_truth\<close> is the sequence of
  \<open>(kind, level)\<close> pairs that \<^verbatim>\<open>for gt, val in ground_truth\<close> unpacks. The argument
  \<open>copy\<close> decides only whether the result is the argument object or a deep copy of it,
  which a value model does not tell apart; it is left out.
\<close>

record criteria =
  c_instruments :: "string list"
  c_ensemble :: "bool option"
  c_mixed :: bool
  c_sources :: bool
  c_all :: bool
  c_composer :: string
  c_datasets :: "string list"
  c_groups :: "string list"
  c_ground_truth :: "(string \<times> int) list"

definition default_criteria :: criteria where
  "default_criteria =
     \<lparr>c_instruments = [], c_ensemble = None, c_mixed = True, c_sources = False, c_all = False,
      c_composer = [], c_datasets = [], c_groups = [], c_ground_truth = []\<rparr>"

text \<open>
  \<^verbatim>\<open>for gt, val in ground_truth: if mydataset['ground_truth'][gt] != val: FLAG = False; break\<close>.
  The subscript raises \<open>KeyError\<close> on a kind the dataset does not list.
\<close>

fun check_ground_truth :: "(string \<times> int) list \<Rightarrow> (string \<times> int) list \<Rightarrow> bool \<Rightarrow> py_error + bool" where
  "check_ground_truth m [] flag = Inr flag"
| "check_ground_truth m ((k, val) # rest) flag =
     (case map_of m k of
        None \<Rightarrow> Inl (KeyError k)
      | Some v \<Rightarrow> if v \<noteq> val then Inr False else check_ground_truth m rest flag)"

definition dataset_flag :: "criteria \<Rightarrow> dataset \<Rightarrow> py_error + bool" where
  "dataset_flag c d =
     (let flag0 = (if \<not> d_included d then False else True);
          flag1 = (if length (c_datasets c) > 0
                   then (if d_name d \<in> set (c_datasets c) then True else False)
                   else flag0);
          flag2 = (case c_ensemble c of
                     None \<Rightarrow> flag1
                   | Some e \<Rightarrow> if e \<noteq> d_ensemble d then False else flag1)
      in check_ground_truth (d_ground_truth d) (c_ground_truth c) flag2)"

text \<open>\<^verbatim>\<open>composer not in song['composer']\<close> is a substring test.\<close>

fun is_substring :: "string \<Rightarrow> string \<Rightarrow> bool" where
  "is_substring p [] = (p = [])"
| "is_substring p (x # xs) = (prefix p (x # xs) \<or> is_substring p xs)"

definition song_flag :: "criteria \<Rightarrow> song \<Rightarrow> bool" where
  "song_flag c s =
     (let flag0 = (if \<not> s_included s then False else True);
          flag1 = (if c_instruments c \<noteq> []
                   then (if c_instruments c \<noteq> s_instruments s then False else flag0)
                   else flag0);
          flag2 = (if c_composer c \<noteq> []
                   then (if \<not> is_substring (c_composer c) (s_composer s) then False else flag1)
                   else flag1);
          flag3 = (if c_groups c \<noteq> []
                   then (if list_ex (\<lambda>g. g \<notin> set (s_groups s)) (c_groups c) then False else flag2)
                   else flag2)
      in flag3)"

text \<open>\<open>list.index\<close>: the first position of the element, \<open>ValueError\<close> when there is none.\<close>

fun index_of :: "string list \<Rightarrow> string \<Rightarrow> py_error + nat" where
  "index_of [] x = Inl ValueError"
| "index_of (y # ys) x =
     (if y = x then Inr 0 else (case index_of ys x of Inl e \<Rightarrow> Inl e | Inr i \<Rightarrow> Inr (Suc i)))"

definition getitem_list :: "'a list \<Rightarrow> nat \<Rightarrow> py_error + 'a" where
  "getitem_list xs i = (if i < length xs then Inr (xs ! i) else Inl IndexError)"

text \<open>The row appended for a song that passed the song-level filters.\<close>

definition song_row :: "criteria \<Rightarrow> song \<Rightarrow> py_error + path_row" where
  "song_row c s =
     (case (if c_sources c \<and> s_sources s \<noteq> None then
              (if c_all c then Inr (SourceList (the (s_sources s)), GtsList (s_ground_truth s))
               else
                 (case c_instruments c of
                    [] \<Rightarrow> Inl IndexError
                  | instr # _ \<Rightarrow>
                    (case index_of (s_instruments s) instr of
                       Inl e \<Rightarrow> Inl e
                     | Inr idx \<Rightarrow>
                       (case getitem_list (the (s_sources s)) idx of
                          Inl e \<Rightarrow> Inl e
                        | Inr src \<Rightarrow>
                          (case getitem_list (s_ground_truth s) idx of
                             Inl e \<Rightarrow> Inl e
                           | Inr g \<Rightarrow> Inr (SourceOne src, GtsOne g))))))
            else Inr (SourceList [], GtsList (s_ground_truth s))) of
        Inl e \<Rightarrow> Inl e
      | Inr (source, gts) \<Rightarrow> Inr (if c_mixed c then s_recording s else [], source, gts))"

text \<open>
  The loop over the songs of an included dataset: the songs as left by the loop, the
  path list and the row cursor \<open>end\<close>.
\<close>

fun filter_songs ::
  "criteria \<Rightarrow> song list \<Rightarrow> path_row list \<Rightarrow> nat \<Rightarrow> py_error + (song list \<times> path_row list \<times> nat)" where
  "filter_songs c [] ps e = Inr ([], ps, e)"
| "filter_songs c (s # ss) ps e =
     (if song_flag c s then
        (case song_row c s of
           Inl err \<Rightarrow> Inl err
         | Inr row \<Rightarrow>
           (case filter_songs c ss (ps @ [row]) (e + 1) of
              Inl err \<Rightarrow> Inl err
            | Inr (ss', ps', e') \<Rightarrow> Inr (s # ss', ps', e')))
      else
        (case filter_songs c ss ps e of
           Inl err \<Rightarrow> Inl err
         | Inr (ss', ps', e') \<Rightarrow> Inr (s\<lparr>s_included := False\<rparr> # ss', ps', e')))"

text \<open>
  The loop over the datasets. \<^verbatim>\<open>ret._chunks[name] = [end, end]\<close> and
  \<^verbatim>\<open>ret._chunks[name][1] = end\<close> are dictionary stores; nothing else writes \<open>_chunks\<close>.
\<close>

fun filter_datasets ::
  "criteria \<Rightarrow> dataset list \<Rightarrow> path_row list \<Rightarrow> (string \<times> nat \<times> nat) list \<Rightarrow> nat
     \<Rightarrow> py_error + (dataset list \<times> path_row list \<times> (string \<times> nat \<times> nat) list \<times> nat)" where
  "filter_datasets c [] ps ch e = Inr ([], ps, ch, e)"
| "filter_datasets c (d # ds) ps ch e =
     (case dataset_flag c d of
        Inl err \<Rightarrow> Inl err
      | Inr True \<Rightarrow>
        (case filter_songs c (d_songs d) ps e of
           Inl err \<Rightarrow> Inl err
         | Inr (ss', ps', e') \<Rightarrow>
           (case filter_datasets c ds ps'
                   (AList.update (d_name d) (e, e') (AList.update (d_name d) (e, e) ch)) e' of
              Inl err \<Rightarrow> Inl err
            | Inr (ds', ps'', ch', e'') \<Rightarrow> Inr (d\<lparr>d_songs := ss'\<rparr> # ds', ps'', ch', e'')))
      | Inr False \<Rightarrow>
        (case filter_datasets c ds ps ch e of
           Inl err \<Rightarrow> Inl err
         | Inr (ds', ps', ch', e') \<Rightarrow> Inr (d\<lparr>d_included := False\<rparr> # ds', ps', ch', e')))"

text \<open>\<open>filter\<close>: \<^verbatim>\<open>ret.paths = []\<close>, \<^verbatim>\<open>end = 0\<close>, then the loop.\<close>

definition filter_asmd :: "criteria \<Rightarrow> corpus \<Rightarrow> py_error + corpus" where
  "filter_asmd c ret =
     (case filter_datasets c (datasets ret) [] (chunks ret) 0 of
        Inl err \<Rightarrow> Inl err
      | Inr (ds, ps, ch, e) \<Rightarrow> Inr (ret\<lparr>datasets := ds, paths := ps, chunks := ch\<rparr>))"

text \<open>
  What it means for the chunk map to partition \<open>[0, n)\<close>: read in the order of their
  start, the ranges follow one another from 0 to \<open>n\<close>.
\<close>

fun contiguous_from :: "nat \<Rightarrow> (nat \<times> nat) list \<Rightarrow> nat \<Rightarrow> bool" where
  "contiguous_from a [] n = (a = n)"
| "contiguous_from a ((lo, hi) # rs) n = (lo = a \<and> lo \<le> hi \<and> contiguous_from hi rs n)"

definition chunks_partition :: "corpus \<Rightarrow> bool" where
  "chunks_partition c =
     contiguous_from 0 (sort_key fst (map snd (chunks c))) (length (paths c))"

definition chunk_widths :: "corpus \<Rightarrow> nat" where
  "chunk_widths c = sum_list (map (\<lambda>(name, lo, hi). hi - lo) (chunks c))"

section \<open>Merging partial records (\<open>convert_gt.py\<close>)\<close>

text \<open>
  The records are JSON-like Python values. A dictionary keeps its keys in insertion
  order, and storing under a key it has keeps the order (\<open>AList.update\<close>).
\<close>

datatype jval = JNum real | JStr string | JList "jval list" | JDict "(string \<times> jval) list"

text \<open>\<^verbatim>\<open>type(x) is dict\<close>\<close>

fun is_dict :: "jval \<Rightarrow> bool" where
  "is_dict (JDict kvs) = True"
| "is_dict (JNum x) = False"
| "is_dict (JStr x) = False"
| "is_dict (JList xs) = False"

text \<open>\<^verbatim>\<open>d[key]\<close> with a string key: a missing key raises, and only a dictionary takes one.\<close>

fun getitem :: "jval \<Rightarrow> string \<Rightarrow> py_error + jval" where
  "getitem (JDict kvs) key = (case map_of kvs key of None \<Rightarrow> Inl (KeyError key) | Some v \<Rightarrow> Inr v)"
| "getitem (JNum x) key = Inl TypeError"
| "getitem (JStr x) key = Inl TypeError"
| "getitem (JList xs) key = Inl TypeError"

text \<open>
  \<open>merge(*args)\<close> with its three nested loops: over the records of the first list
  (\<open>merge_records\<close>), over the other lists (\<open>merge_args\<close>) and over the keys of the
  record (\<open>merge_keys\<close>). The first assertion (every argument is a list) holds by type.
  \<open>d1_element\<close> is the one-element list \<open>[d1[key]]\<close>, and the test
  \<^verbatim>\<open>type(d1_element) is dict\<close> is made on that list; after either branch
  \<^verbatim>\<open>d1[key] = d1_element\<close> stores it.
\<close>

fun merge :: "jval list list \<Rightarrow> py_error + jval list"
and merge_records :: "jval list \<Rightarrow> jval list list \<Rightarrow> nat \<Rightarrow> py_error + jval list"
and merge_args :: "jval \<Rightarrow> jval list list \<Rightarrow> nat \<Rightarrow> py_error + jval"
and merge_keys :: "(string \<times> jval) list \<Rightarrow> jval \<Rightarrow> string list \<Rightarrow> py_error + (string \<times> jval) list"
where
  "merge args =
     (if \<not> list_all (\<lambda>x. length x = length (hd args)) (tl args)
      then Inl (AssertionError ''Cannot merge list with different lenghts'')
      else if length args = 1 then Inr (hd args)
      else (case args of [] \<Rightarrow> Inl IndexError | obj1 # rest \<Rightarrow> merge_records obj1 rest 0))"
| "merge_records [] rest i = Inr []"
| "merge_records (d1 # ds) rest i =
     (case merge_args d1 rest i of
        Inl e \<Rightarrow> Inl e
      | Inr d1' \<Rightarrow>
        (case merge_records ds rest (Suc i) of
           Inl e \<Rightarrow> Inl e
         | Inr ds' \<Rightarrow> Inr (d1' # ds')))"
| "merge_args d1 [] i = Inr d1"
| "merge_args d1 (arg # args) i =
     (if length arg \<le> i then Inl IndexError
      else (case d1 of
              JDict kvs \<Rightarrow>
                (case merge_keys kvs (arg ! i) (map fst kvs) of
                   Inl e \<Rightarrow> Inl e
                 | Inr kvs' \<Rightarrow> merge_args (JDict kvs') args i)
            | JNum x \<Rightarrow> Inl AttributeError
            | JStr x \<Rightarrow> Inl AttributeError
            | JList xs \<Rightarrow> Inl AttributeError))"
| "merge_keys d1 d2 [] = Inr d1"
| "merge_keys d1 d2 (key # keys) =
     (case getitem (JDict d1) key of
        Inl e \<Rightarrow> Inl e
      | Inr v1 \<Rightarrow>
        (if is_dict (JList [v1]) then
           (case getitem d2 key of
              Inl e \<Rightarrow> Inl e
            | Inr v2 \<Rightarrow>
              (case merge [[JList [v1]], [v2]] of
                 Inl e \<Rightarrow> Inl e
               | Inr r \<Rightarrow>
                 (case r of
                    [] \<Rightarrow> Inl IndexError
                  | r0 # _ \<Rightarrow>
                      merge_keys (AList.update key (JList [v1]) (AList.update key r0 d1)) d2 keys)))
         else
           (case getitem d2 key of
              Inl e \<Rightarrow> Inl e
            | Inr v2 \<Rightarrow> merge_keys (AList.update key (JList [v1, v2]) d1) d2 keys)))"


section \<open>Concrete inputs\<close>

text \<open>The note lists of the spec's ragged example, and a shorter ragged record.\<close>

definition ragged_notes :: alignment where
  "ragged_notes = \<lparr>pitches = [60, 62], onsets = [0], offsets = [], velocities = [80, 90, 100]\<rparr>"

definition short_offsets_notes :: alignment where
  "short_offsets_notes = \<lparr>pitches = [60, 62], onsets = [0], offsets = [], velocities = []\<rparr>"

text \<open>Two partial records of one track, each with a nested alignment dictionary.\<close>

definition partial_midi :: jval where
  "partial_midi =
     JDict [(''precise-alignment'',
               JDict [(''onsets'', JList [JNum 1]), (''offsets'', JList [JNum 2])]),
            (''pitches'', JList [JNum 60])]"

definition partial_txt :: jval where
  "partial_txt =
     JDict [(''precise-alignment'', JDict [(''onsets'', JList []), (''offsets'', JList [])]),
            (''pitches'', JList [])]"

text \<open>A ground truth whose precise alignment has no pitches and whose broad alignment has three.\<close>

definition empty_notes :: alignment where
  "empty_notes = \<lparr>pitches = [], onsets = [], offsets = [], velocities = []\<rparr>"

definition no_pedal :: pedal where
  "no_pedal = \<lparr>p_times = [], p_values = []\<rparr>"

definition broad_only_gt :: gt where
  "broad_only_gt =
     \<lparr>instrument = 0, precise_alignment = empty_notes,
      broad_alignment = \<lparr>pitches = [60, 62, 64], onsets = [0, 1, 2], offsets = [1, 2, 3],
                         velocities = [80, 80, 80]\<rparr>,
      misaligned = empty_notes, score = empty_notes,
      sustain = no_pedal, sostenuto = no_pedal, soft = no_pedal\<rparr>"

text \<open>
  When \<open>merge\<close> can read every key it asks for: both records are dictionaries and the
  second has every key of the first.
\<close>

fun keys_covered :: "jval \<Rightarrow> jval \<Rightarrow> bool" where
  "keys_covered (JDict kvs) (JDict kvs2) = list_all (\<lambda>k. map_of kvs2 k \<noteq> None) (map fst kvs)"
| "keys_covered d1 d2 = False"

text \<open>Two successive calls of \<open>filter\<close> on the same object.\<close>

definition filter_twice :: "criteria \<Rightarrow> criteria \<Rightarrow> corpus \<Rightarrow> py_error + corpus" where
  "filter_twice c1 c2 ret =
     (case filter_asmd c1 ret of Inl e \<Rightarrow> Inl e | Inr r \<Rightarrow> filter_asmd c2 r)"

text \<open>A corpus of two datasets with one song each, not filtered yet.\<close>

definition one_song :: song where
  "one_song =
     \<lparr>s_included = True, s_instruments = [''piano''], s_composer = ''Bach'', s_groups = [],
      s_ground_truth = [], s_recording = [''a.wav''], s_sources = None\<rparr>"

definition two_datasets :: corpus where
  "two_datasets =
     \<lparr>datasets =
        [\<lparr>d_name = ''A'', d_included = True, d_ensemble = False,
          d_ground_truth = [(''non-aligned'', 1)], d_songs = [one_song]\<rparr>,
         \<lparr>d_name = ''B'', d_included = True, d_ensemble = False,
          d_ground_truth = [(''non-aligned'', 1)], d_songs = [one_song]\<rparr>],
      paths = [], chunks = []\<rparr>"

text \<open>A corpus of one dataset.\<close>

definition one_dataset :: corpus where
  "one_dataset =
     \<lparr>datasets =
        [\<lparr>d_name = ''A'', d_included = True, d_ensemble = False,
          d_ground_truth = [(''non-aligned'', 1)], d_songs = [one_song]\<rparr>],
      paths = [], chunks = []\<rparr>"

text \<open>
  The contract of \<open>argsort\<close> can be met: a sort of the (key, index) pairs by key.
\<close>

definition argsort_stable :: "real list \<Rightarrow> nat list" where
  "argsort_stable ks = map snd (sort_key fst (zip ks [0..<length ks]))"

text \<open>
  Two ground truths of one song: a source with two notes given out of onset order, and
  a source with one note between them.
\<close>

definition first_source_gt :: gt where
  "first_source_gt =
     \<lparr>instrument = 0, precise_alignment = empty_notes, broad_alignment = empty_notes,
      misaligned = empty_notes,
      score = \<lparr>pitches = [60, 62], onsets = [2, 1], offsets = [3, 2], velocities = [80, 90]\<rparr>,
      sustain = no_pedal, sostenuto = no_pedal, soft = no_pedal\<rparr>"

definition second_source_gt :: gt where
  "second_source_gt =
     \<lparr>instrument = 40, precise_alignment = empty_notes, broad_alignment = empty_notes,
      misaligned = empty_notes,
      score = \<lparr>pitches = [64], onsets = [3 / 2], offsets = [5 / 2], velocities = [70]\<rparr>,
      sustain = no_pedal, sostenuto = no_pedal, soft = no_pedal\<rparr>"

text \<open>The event stream sustain at (t = 0, v = 0), sustain at (t = 1, v = 127).\<close>

definition sustain_pedal :: pedal where
  "sustain_pedal = \<lparr>p_times = [0, 1], p_values = [0, 127]\<rparr>"

definition sustain_gt :: gt where
  "sustain_gt =
     \<lparr>instrument = 0, precise_alignment = empty_notes, broad_alignment = empty_notes,
      misaligned = empty_notes, score = empty_notes,
      sustain = sustain_pedal, sostenuto = no_pedal, soft = no_pedal\<rparr>"

text \<open>
  A frame matrix of \<open>n\<close> rows whose sustain column is 0 in frames 0 and 1 and 127 from
  frame 2 on, the other pedals 0.
\<close>

definition held_frames :: "nat \<Rightarrow> real \<Rightarrow> real \<Rightarrow> real list list" where
  "held_frames n hop winlen =
     map (\<lambda>i. [real i * hop + winlen / 2, if i < 2 then 0 else 127, 0, 0]) [0..<n]"

section \<open>Properties\<close>

subsection \<open>\<open>merge\<close>\<close>


text \<open>
  C2. The claim says that a field holding a nested mapping in both records is merged
  recursively into one sub-mapping. The code tests \<open>type(d1_element) is dict\<close> after
  wrapping the value in a list, so the recursive branch is never taken: the two
  alignment dictionaries of \<open>partial_midi\<close> and \<open>partial_txt\<close> come out as a
  two-element list of dictionaries, like any other field.
\<close>

theorem merge_nested_mapping_not_recursed:
  "merge [[partial_midi], [partial_txt]] =
     Inr [JDict [(''precise-alignment'',
                    JList [JDict [(''onsets'', JList [JNum 1]), (''offsets'', JList [JNum 2])],
                           JDict [(''onsets'', JList []), (''offsets'', JList [])]]),
                 (''pitches'', JList [JList [JNum 60], JList []])]]"
  by (simp add: partial_midi_def partial_txt_def)

text \<open>
  The same for any two one-record lists: when the first dictionary has distinct keys and
  the second has all of them, every field of the result is the two-element list of the
  two values, whether these are mappings or not.
\<close>

lemma update_distinct:
  "distinct (map fst kvs) \<Longrightarrow> map_of kvs key = Some v1 \<Longrightarrow>
   AList.update key v kvs = map (\<lambda>(k, w). if k = key then (k, v) else (k, w)) kvs"
proof (induction kvs)
  case Nil
  then show ?case by simp
next
  case (Cons p kvs)
  obtain k w where p: "p = (k, w)" by (cases p)
  show ?case
  proof (cases "k = key")
    case True
    with Cons.prems p have "key \<notin> fst ` set kvs" by auto
    then have "map (\<lambda>(k, w). if k = key then (k, v) else (k, w)) kvs = kvs"
      by (induction kvs) auto
    with True p show ?thesis by simp
  next
    case False
    with Cons p show ?thesis by simp
  qed
qed

lemma merge_keys_wraps:
  "distinct (map fst kvs) \<Longrightarrow> distinct keys \<Longrightarrow> set keys \<subseteq> fst ` set kvs \<Longrightarrow>
   list_all (\<lambda>k. map_of kvs2 k \<noteq> None) keys \<Longrightarrow>
   merge_keys kvs (JDict kvs2) keys
     = Inr (map (\<lambda>(k, v1). if k \<in> set keys then (k, JList [v1, the (map_of kvs2 k)]) else (k, v1)) kvs)"
proof (induction keys arbitrary: kvs)
  case Nil
  then show ?case by simp
next
  case (Cons key keys)
  from Cons.prems obtain v1 where v1: "map_of kvs key = Some v1"
    by (cases "map_of kvs key") (auto simp: map_of_eq_None_iff)
  from Cons.prems obtain v2 where v2: "map_of kvs2 key = Some v2" by auto
  let ?kvs' = "AList.update key (JList [v1, v2]) kvs"
  have upd: "?kvs' = map (\<lambda>(k, w). if k = key then (k, JList [v1, v2]) else (k, w)) kvs"
    using update_distinct[OF Cons.prems(1) v1] .
  have keys': "map fst ?kvs' = map fst kvs" unfolding upd by (auto simp: case_prod_beta)
  have d: "distinct (map fst ?kvs')" using keys' Cons.prems(1) by simp
  have sub: "set keys \<subseteq> fst ` set ?kvs'"
    using Cons.prems(3) keys' by (metis set_map set_subset_Cons subset_trans)
  have all: "list_all (\<lambda>k. map_of kvs2 k \<noteq> None) keys" using Cons.prems(4) by simp
  have "distinct keys" using Cons.prems(2) by simp
  have step: "merge_keys kvs (JDict kvs2) (key # keys) = merge_keys ?kvs' (JDict kvs2) keys"
    using v1 v2 by simp
  have ih: "merge_keys ?kvs' (JDict kvs2) keys
     = Inr (map (\<lambda>(k, v1). if k \<in> set keys then (k, JList [v1, the (map_of kvs2 k)]) else (k, v1)) ?kvs')"
    by (rule Cons.IH[OF d \<open>distinct keys\<close> sub all])
  have v1_unique: "w = v1" if "(key, w) \<in> set kvs" for w
    using that Cons.prems(1) v1 by (metis map_of_is_SomeI option.inject)
  have "map (\<lambda>(k, v1). if k \<in> set keys then (k, JList [v1, the (map_of kvs2 k)]) else (k, v1)) ?kvs'
      = map (\<lambda>(k, v1). if k \<in> set (key # keys) then (k, JList [v1, the (map_of kvs2 k)]) else (k, v1)) kvs"
    unfolding upd using Cons.prems(2) v2 v1_unique by (auto simp: case_prod_beta)
  with step ih show ?case by simp
qed

lemma merge_pair_wraps_every_field:
  assumes "distinct (map fst kvs)" and "list_all (\<lambda>k. map_of kvs2 k \<noteq> None) (map fst kvs)"
  shows "merge [[JDict kvs], [JDict kvs2]]
           = Inr [JDict (map (\<lambda>(k, v1). (k, JList [v1, the (map_of kvs2 k)])) kvs)]"
proof -
  have "merge_keys kvs (JDict kvs2) (map fst kvs)
          = Inr (map (\<lambda>(k, v1). if k \<in> set (map fst kvs) then (k, JList [v1, the (map_of kvs2 k)])
                                 else (k, v1)) kvs)"
    using assms by (intro merge_keys_wraps) simp_all
  moreover have "map (\<lambda>(k, v1). if k \<in> set (map fst kvs) then (k, JList [v1, the (map_of kvs2 k)])
                                 else (k, v1)) kvs
                 = map (\<lambda>(k, v1). (k, JList [v1, the (map_of kvs2 k)])) kvs"
    by (auto simp: case_prod_beta intro: rev_image_eqI)
  ultimately show ?thesis by simp
qed

text \<open>The three loops of \<open>merge\<close> return when every key can be read, and keep the keys.\<close>

lemma merge_keys_ok:
  "set keys \<subseteq> fst ` set kvs \<Longrightarrow> list_all (\<lambda>k. map_of kvs2 k \<noteq> None) keys \<Longrightarrow>
   \<exists>kvs'. merge_keys kvs (JDict kvs2) keys = Inr kvs' \<and> map fst kvs' = map fst kvs"
proof (induction keys arbitrary: kvs)
  case Nil
  then show ?case by simp
next
  case (Cons key keys)
  from Cons.prems obtain v1 where v1: "map_of kvs key = Some v1"
    by (cases "map_of kvs key") (auto simp: map_of_eq_None_iff)
  from Cons.prems obtain v2 where v2: "map_of kvs2 key = Some v2" by auto
  have keys: "map fst (AList.update key (JList [v1, v2]) kvs) = map fst kvs"
    using Cons.prems by (simp add: update_keys)
  have "set keys \<subseteq> fst ` set (AList.update key (JList [v1, v2]) kvs)"
    using Cons.prems keys by (metis set_map set_subset_Cons subset_trans)
  from Cons.IH[OF this] Cons.prems(2) keys v1 v2 show ?case by simp
qed

lemma merge_args_ok:
  "list_all (\<lambda>arg. i < length arg \<and> keys_covered (JDict kvs) (arg ! i)) args \<Longrightarrow>
   \<exists>kvs'. merge_args (JDict kvs) args i = Inr (JDict kvs') \<and> map fst kvs' = map fst kvs"
proof (induction args arbitrary: kvs)
  case Nil
  then show ?case by simp
next
  case (Cons arg args)
  from Cons.prems have len: "i < length arg" and cov: "keys_covered (JDict kvs) (arg ! i)" by auto
  from cov obtain kvs2 where d2: "arg ! i = JDict kvs2"
    and all: "list_all (\<lambda>k. map_of kvs2 k \<noteq> None) (map fst kvs)"
    by (cases "arg ! i") auto
  have "set (map fst kvs) \<subseteq> fst ` set kvs" by simp
  from merge_keys_ok[OF this all] obtain kvs' where
    mk: "merge_keys kvs (JDict kvs2) (map fst kvs) = Inr kvs'" and k': "map fst kvs' = map fst kvs"
    by blast
  have "list_all (\<lambda>arg. i < length arg \<and> keys_covered (JDict kvs') (arg ! i)) args"
  proof -
    have "keys_covered (JDict kvs') d = keys_covered (JDict kvs) d" for d
      by (cases d) (simp_all add: k')
    with Cons.prems show ?thesis by simp
  qed
  from Cons.IH[OF this] obtain kvs'' where
    "merge_args (JDict kvs') args i = Inr (JDict kvs'')" "map fst kvs'' = map fst kvs'" by blast
  with len d2 mk k' show ?case by simp
qed

lemma keys_covered_dict: "keys_covered d1 d2 \<Longrightarrow> \<exists>kvs. d1 = JDict kvs"
  by (cases d1; cases d2) auto

lemma drop_Cons_parts:
  "drop i arg = x # xs \<Longrightarrow> i < length arg \<and> arg ! i = x \<and> drop (Suc i) arg = xs"
proof -
  assume d: "drop i arg = x # xs"
  then have len: "i < length arg" by (cases "i < length arg") auto
  from Cons_nth_drop_Suc[OF len] d show ?thesis using len by simp
qed

lemma merge_records_ok:
  "list_all (\<lambda>arg. list_all2 keys_covered ds (drop i arg)) rest \<Longrightarrow>
   \<exists>r. merge_records ds rest i = Inr r \<and> length r = length ds"
proof (induction ds arbitrary: i)
  case Nil
  then show ?case by simp
next
  case (Cons d1 ds)
  have step: "i < length arg \<and> keys_covered d1 (arg ! i) \<and> list_all2 keys_covered ds (drop (Suc i) arg)"
    if "arg \<in> set rest" for arg
  proof -
    from Cons.prems that have "list_all2 keys_covered (d1 # ds) (drop i arg)"
      by (simp add: list_all_iff)
    then obtain x xs where "drop i arg = x # xs" "keys_covered d1 x" "list_all2 keys_covered ds xs"
      by (auto simp: list_all2_Cons1)
    with drop_Cons_parts[of i arg x xs] show ?thesis by simp
  qed
  then have "list_all (\<lambda>arg. list_all2 keys_covered ds (drop (Suc i) arg)) rest"
    by (simp add: list_all_iff)
  from Cons.IH[OF this] obtain r where
    r: "merge_records ds rest (Suc i) = Inr r" "length r = length ds" by blast
  show ?case
  proof (cases rest)
    case Nil
    with r show ?thesis by simp
  next
    case (Cons a as)
    with step[of a] have "keys_covered d1 (a ! i)" by simp
    then obtain kvs where d1: "d1 = JDict kvs" using keys_covered_dict by blast
    have "list_all (\<lambda>arg. i < length arg \<and> keys_covered (JDict kvs) (arg ! i)) rest"
      using step d1 by (simp add: list_all_iff)
    from merge_args_ok[OF this] obtain kvs' where
      "merge_args d1 rest i = Inr (JDict kvs')" using d1 by blast
    with r show ?thesis by simp
  qed
qed

text \<open>
  C7, as stated, promises a list of length L whenever the input lists have one length.
  Two lists of one record each, the second record without a key of the first: the
  lengths agree and \<open>d2[key]\<close> raises \<open>KeyError\<close>.
\<close>

theorem merge_equal_length_key_error:
  "merge [[JDict [(''pitches'', JList [])]], [JDict []]] = Inl (KeyError ''pitches'')"
  by simp

text \<open>
  C7, amended. For a call \<open>merge(obj1, rest...)\<close>: if every list has the length of the
  first and, position by position, every record is a dictionary and the records of the
  later lists have every key of the first list's record, the call returns a list of that
  length; if some list has another length than the first, the call fails its length
  assertion (the spec's LengthMismatchError).
\<close>

theorem merge_length:
  "(list_all (\<lambda>x. length x = length obj1) rest \<and> list_all (\<lambda>arg. list_all2 keys_covered obj1 arg) rest
      \<longrightarrow> (\<exists>r. merge (obj1 # rest) = Inr r \<and> length r = length obj1))
   \<and> (\<not> list_all (\<lambda>x. length x = length obj1) rest
      \<longrightarrow> merge (obj1 # rest) = Inl (AssertionError ''Cannot merge list with different lenghts''))"
proof (intro conjI impI)
  assume a: "list_all (\<lambda>x. length x = length obj1) rest \<and> list_all (\<lambda>arg. list_all2 keys_covered obj1 arg) rest"
  show "\<exists>r. merge (obj1 # rest) = Inr r \<and> length r = length obj1"
  proof (cases rest)
    case Nil
    then show ?thesis by simp
  next
    case (Cons a' as)
    have "list_all (\<lambda>arg. list_all2 keys_covered obj1 (drop 0 arg)) rest"
      using a by simp
    from merge_records_ok[OF this] obtain r where
      "merge_records obj1 rest 0 = Inr r" "length r = length obj1" by blast
    with a Cons show ?thesis by simp
  qed
next
  assume "\<not> list_all (\<lambda>x. length x = length obj1) rest"
  then show "merge (obj1 # rest) = Inl (AssertionError ''Cannot merge list with different lenghts'')"
    by simp
qed


theorem merge_length_witness:
  "(\<exists>r. merge [[partial_midi], [partial_txt]] = Inr r \<and> length r = length [partial_midi])
   \<and> merge [[partial_midi], []] = Inl (AssertionError ''Cannot merge list with different lenghts'')"
  using merge_length [of "[partial_midi]" "[[partial_txt]]"]
        merge_length [of "[partial_midi]" "[[]]"]
  by (simp add: partial_midi_def partial_txt_def)

subsection \<open>\<open>get_score_mat\<close>\<close>

text \<open>
  C1. For pitches [60, 62], onsets [0.0], offsets [] and velocities [80, 90, 100] the
  claim expects three rows. The code pads offsets and velocities by the pitch/onset
  difference (one sentinel each), then grows pitches, onsets and offsets by the two
  cells velocities is longer: pitches, onsets and velocities get four cells, offsets
  three, and no matrix is built.
\<close>

theorem get_score_mat_ragged_example:
  "score_columns i g ragged_notes =
     [[60, 62, - 255, - 255], [0, - 255, - 255, - 255], [- 255, - 255, - 255],
      [80, 90, 100, - 255], replicate 4 (instrument g), replicate 4 (real i)]
   \<and> get_score_mat argsort [g\<lparr>score := ragged_notes\<rparr>] [''score''] = Inl ShapeError"
  by (simp add: get_score_mat_def chose_score_type_def score_rows_def gt_lookup_def
      np_array_def rectangular_def score_columns_def ragged_notes_def pad_def full_like_def
      sentinel_def Let_def eval_nat_numeral)

text \<open>
  C4. The claim says every combination of lengths gives a rectangular matrix. With two
  pitches, one onset and neither offsets nor velocities, the offsets column is the one
  sentinel appended for the pitch/onset difference and is never brought to the length
  of the others: the columns have lengths 2, 2, 1, 2, 2, 2 and no matrix is built.
\<close>

theorem get_score_mat_not_rectangular:
  "score_columns i g short_offsets_notes =
     [[60, 62], [0, - 255], [- 255], [- 255, - 255], replicate 2 (instrument g),
      replicate 2 (real i)]
   \<and> get_score_mat argsort [g\<lparr>score := short_offsets_notes\<rparr>] [''score''] = Inl ShapeError"
  by (simp add: get_score_mat_def chose_score_type_def score_rows_def gt_lookup_def
      np_array_def rectangular_def score_columns_def short_offsets_notes_def pad_def
      full_like_def sentinel_def Let_def eval_nat_numeral)

text \<open>
  The final ordering. The contract of \<open>argsort\<close> can be met, and for any sort that
  meets it the rows of the returned matrix are in non-decreasing order of the onset
  column and are the rows of the concatenated source blocks, each as often as there.
  Which of two rows with the same onset comes first is the sort's own choice: the
  contract leaves it open, and nothing below depends on it.
\<close>

lemma argsort_of_pairs:
  assumes "mset ps = mset (zip ks [0..<length ks])" and "sorted (map fst ps)"
  shows "mset (map snd ps) = mset [0..<length ks] \<and> sorted (map (\<lambda>j. ks ! j) (map snd ps))"
proof -
  have "mset (map snd ps) = mset (map snd (zip ks [0..<length ks]))"
    using assms(1) by (metis mset_map)
  then have 1: "mset (map snd ps) = mset [0..<length ks]" by simp
  have "set ps = set (zip ks [0..<length ks])" using assms(1) by (metis set_mset_mset)
  then have "ks ! snd p = fst p" if "p \<in> set ps" for p
    using that by (auto simp: set_zip)
  then have "map (\<lambda>j. ks ! j) (map snd ps) = map fst ps" by simp
  with assms(2) have "sorted (map (\<lambda>j. ks ! j) (map snd ps))" by (simp only:)
  with 1 show ?thesis by (rule conjI)
qed

lemma is_argsort_stable: "is_argsort argsort_stable"
  unfolding is_argsort_def argsort_stable_def
  by (intro allI argsort_of_pairs) simp_all

lemma reorder_by_argsort:
  assumes "mset idx = mset [0..<length rows]" and "sorted (map (\<lambda>j. map f rows ! j) idx)"
  shows "mset (map (\<lambda>j. rows ! j) idx) = mset rows \<and> sorted (map f (map (\<lambda>j. rows ! j) idx))"
proof -
  have "mset (map (\<lambda>j. rows ! j) idx) = mset (map (\<lambda>j. rows ! j) [0..<length rows])"
    using assms(1) by (metis mset_map)
  then have 1: "mset (map (\<lambda>j. rows ! j) idx) = mset rows" by (simp add: map_nth)
  have "set idx = set [0..<length rows]" using assms(1) by (metis set_mset_mset)
  then have "map f rows ! j = f (rows ! j)" if "j \<in> set idx" for j using that by simp
  then have "map (\<lambda>j. map f rows ! j) idx = map f (map (\<lambda>j. rows ! j) idx)" by simp
  with assms(2) have "sorted (map f (map (\<lambda>j. rows ! j) idx))" by (simp only:)
  with 1 show ?thesis by (rule conjI)
qed

lemma get_score_mat_sorted:
  assumes "is_argsort argsort" and "get_score_mat argsort gts score_type = Inr rows"
  shows "sorted (map (\<lambda>r. r ! 1) rows)
         \<and> (\<exists>k rows0. chose_score_type score_type gts = Inr k \<and> score_rows gts k = Inr rows0
               \<and> mset rows = mset rows0)"
proof -
  from assms(2) obtain k rows0 where k: "chose_score_type score_type gts = Inr k"
    and r0: "score_rows gts k = Inr rows0"
    and rows: "rows = map (\<lambda>j. rows0 ! j) (argsort (map (\<lambda>r. r ! 1) rows0))"
    by (auto simp: get_score_mat_def split: sum.splits)
  let ?keys = "map (\<lambda>r. r ! 1) rows0"
  from assms(1) have "mset (argsort ?keys) = mset [0..<length rows0]"
    and "sorted (map (\<lambda>j. ?keys ! j) (argsort ?keys))"
    by (simp_all add: is_argsort_def)
  from reorder_by_argsort[OF this] rows k r0 show ?thesis by simp
qed

text \<open>
  On the two sources above no two onsets agree, and the rows come out by onset: the
  second note of the first source, the note of the second source, then the first note
  of the first source.
\<close>

lemma get_score_mat_two_sources:
  "get_score_mat argsort_stable [first_source_gt, second_source_gt] [''score'']
     = Inr [[62, 1, 2, 90, 0, 0], [64, 3 / 2, 5 / 2, 70, 40, 1], [60, 2, 3, 80, 0, 0]]"
proof -
  have rows: "score_rows [first_source_gt, second_source_gt] ''score''
                = Inr [[60, 2, 3, 80, 0, 0], [62, 1, 2, 90, 0, 0], [64, 3 / 2, 5 / 2, 70, 40, 1]]"
    by (simp add: score_rows_def gt_lookup_def np_array_def rectangular_def score_columns_def
        first_source_gt_def second_source_gt_def concatenate_axis1_def pad_def full_like_def
        sentinel_def Let_def eval_nat_numeral upt_rec[of _ "Suc _"])
  show ?thesis
    by (simp add: get_score_mat_def chose_score_type_def rows argsort_stable_def)
qed

subsection \<open>\<open>chose_score_type\<close>\<close>

text \<open>
  C8, as stated, covers every ground-truth list. On an empty list a request of several
  kinds that names \<open>precise_alignment\<close> reads \<open>gts[0]\<close> and raises, where the claim
  has \<open>score\<close> returned.
\<close>

theorem chose_score_type_empty_gts:
  "chose_score_type [''precise_alignment'', ''broad_alignment''] [] = Inl IndexError"
  by (simp add: chose_score_type_def usable_def)

text \<open>
  C8, amended. A single-entry request is returned unconditionally, whatever the
  ground-truth list. With several entries and a ground-truth list that has a first
  record \<open>g\<close>, the first of \<open>precise_alignment\<close>, \<open>broad_alignment\<close>, \<open>misaligned\<close>
  that is requested and has a non-empty pitch list in \<open>g\<close> is returned, and \<open>score\<close>
  if there is none, requested or not.
\<close>

theorem chose_score_type_priority:
  "chose_score_type [k] gts = Inr k
   \<and> (1 < length st \<longrightarrow>
        chose_score_type st (g # gs) =
          Inr (if ''precise_alignment'' \<in> set st \<and> pitches (precise_alignment g) \<noteq> []
               then ''precise_alignment''
               else if ''broad_alignment'' \<in> set st \<and> pitches (broad_alignment g) \<noteq> []
               then ''broad_alignment''
               else if ''misaligned'' \<in> set st \<and> pitches (misaligned g) \<noteq> []
               then ''misaligned''
               else ''score''))"
  by (auto simp: chose_score_type_def usable_def)

theorem chose_score_type_priority_witness:
  "chose_score_type [''score''] [broad_only_gt] = Inr ''score''
   \<and> 1 < length [''precise_alignment'', ''broad_alignment'']
   \<and> chose_score_type [''precise_alignment'', ''broad_alignment''] [broad_only_gt]
       = Inr ''broad_alignment''"
  using chose_score_type_priority
    [of "''score''" "[broad_only_gt]" "[''precise_alignment'', ''broad_alignment'']"
        broad_only_gt "[]"]
  by (simp add: broad_only_gt_def empty_notes_def)

subsection \<open>\<open>filter\<close>\<close>

lemma check_ground_truth_absent:
  "map_of m k = None \<Longrightarrow> list_all (\<lambda>(k', v'). map_of m k' = Some v') pre \<Longrightarrow>
   check_ground_truth m (pre @ (k, v) # post) flag = Inl (KeyError k)"
  by (induction pre) auto

lemma filter_datasets_raises:
  "d \<in> set ds \<Longrightarrow> dataset_flag c d = Inl err \<Longrightarrow> isl (filter_datasets c ds ps ch e)"
proof (induction ds arbitrary: ps ch e)
  case Nil
  then show ?case by simp
next
  case (Cons a ds)
  show ?case
  proof (cases "a = d")
    case True
    with Cons.prems show ?thesis by simp
  next
    case False
    with Cons.prems have "d \<in> set ds" by simp
    from Cons.IH[OF this Cons.prems(2)] have ih: "isl (filter_datasets c ds ps' ch' e')" for ps' ch' e' .
    show ?thesis
    proof (cases "dataset_flag c a")
      case (Inl x)
      then show ?thesis by simp
    next
      case (Inr b)
      show ?thesis
      proof (cases b)
        case True
        show ?thesis
        proof (cases "filter_songs c (d_songs a) ps e")
          case (Inl x)
          with Inr True show ?thesis by simp
        next
          case (Inr r)
          obtain ss' ps' e' where r: "r = (ss', ps', e')" by (cases r)
          from ih[of ps' "AList.update (d_name a) (e, e') (AList.update (d_name a) (e, e) ch)" e']
          obtain x where "filter_datasets c ds ps' (AList.update (d_name a) (e, e') (AList.update (d_name a) (e, e) ch)) e' = Inl x"
            by (auto simp: isl_def)
          with \<open>dataset_flag c a = Inr b\<close> True Inr r show ?thesis by simp
        qed
      next
        case False
        from ih[of ps ch e] obtain x where "filter_datasets c ds ps ch e = Inl x"
          by (auto simp: isl_def)
        with Inr False show ?thesis by simp
      qed
    qed
  qed
qed

lemma check_ground_truth_mismatch:
  "map_of m k = Some v' \<Longrightarrow> v' \<noteq> v \<Longrightarrow> list_all (\<lambda>(k', v'). map_of m k' = Some v') pre \<Longrightarrow>
   check_ground_truth m (pre @ (k, v) # post) flag = Inr False"
  by (induction pre) auto

lemma filter_datasets_excludes:
  "filter_datasets c ds ps ch e = Inr (ds', ps', ch', e') \<Longrightarrow> d \<in> set ds \<Longrightarrow>
   dataset_flag c d = Inr False \<Longrightarrow> d\<lparr>d_included := False\<rparr> \<in> set ds'"
proof (induction ds arbitrary: ps ch e ds')
  case Nil
  then show ?case by simp
next
  case (Cons a ds)
  from Cons.prems(1) obtain b where flag: "dataset_flag c a = Inr b"
    by (auto split: sum.splits)
  show ?case
  proof (cases b)
    case True
    with Cons.prems(3) flag have ne: "a \<noteq> d" by auto
    from True Cons.prems(1) flag obtain ss1 ps1 e1 ds1 where
      rest: "filter_datasets c ds ps1
               (AList.update (d_name a) (e, e1) (AList.update (d_name a) (e, e) ch)) e1
             = Inr (ds1, ps', ch', e')" and ds': "ds' = a\<lparr>d_songs := ss1\<rparr> # ds1"
      by (auto split: sum.splits)
    from ne Cons.prems(2) have "d \<in> set ds" by simp
    from Cons.IH[OF rest this Cons.prems(3)] ds' show ?thesis by simp
  next
    case False
    with Cons.prems(1) flag obtain ds1 where
      rest: "filter_datasets c ds ps ch e = Inr (ds1, ps', ch', e')"
      and ds': "ds' = a\<lparr>d_included := False\<rparr> # ds1"
      by (auto split: sum.splits)
    show ?thesis
    proof (cases "a = d")
      case True
      with ds' show ?thesis by simp
    next
      case False
      with Cons.prems(2) have "d \<in> set ds" by simp
      from Cons.IH[OF rest this Cons.prems(3)] ds' show ?thesis by simp
    qed
  qed
qed

text \<open>
  C3, as stated, has a requested kind that a dataset does not list count as unsatisfied
  without an error. With every dataset listing only \<open>non-aligned\<close>, a request for
  \<open>f0\<close> makes the subscript \<open>mydataset['ground_truth'][gt]\<close> raise \<open>KeyError\<close>.
\<close>

theorem filter_absent_kind_key_error:
  "filter_asmd (default_criteria\<lparr>c_ground_truth := [(''f0'', 1)]\<rparr>) two_datasets
     = Inl (KeyError ''f0'')"
  by (simp add: filter_asmd_def default_criteria_def two_datasets_def dataset_flag_def)

text \<open>
  C3, amended. Read the requested pairs in order, for a dataset of the corpus, up to the
  first pair it does not meet (the pairs before it are listed in its \<open>ground_truth\<close>
  mapping with the requested level). If the kind of that pair is absent from the mapping,
  \<open>filter\<close> raises instead of excluding the dataset; when the dataset is the first of
  the corpus the exception is the \<open>KeyError\<close> of that kind. If the kind is present
  with another level, the requirement is unsatisfied and nothing is raised for the
  dataset: its flag is False, a call that returns has it in the result with
  \<open>included\<close> set to False, and on a corpus of that dataset alone the call returns
  with no path, no new chunk and the dataset excluded.
\<close>

theorem filter_absent_kind_raises:
  assumes "d \<in> set (datasets ret)"
    and "c_ground_truth c = pre @ (k, v) # post"
    and "list_all (\<lambda>(k', v'). map_of (d_ground_truth d) k' = Some v') pre"
  shows "(map_of (d_ground_truth d) k = None \<longrightarrow>
            isl (filter_asmd c ret)
            \<and> (hd (datasets ret) = d \<longrightarrow> filter_asmd c ret = Inl (KeyError k)))
       \<and> (map_of (d_ground_truth d) k = Some w \<and> w \<noteq> v \<longrightarrow>
            dataset_flag c d = Inr False
            \<and> (filter_asmd c ret = Inr r \<longrightarrow> d\<lparr>d_included := False\<rparr> \<in> set (datasets r))
            \<and> (datasets ret = [d] \<longrightarrow>
                 filter_asmd c ret
                   = Inr (ret\<lparr>datasets := [d\<lparr>d_included := False\<rparr>], paths := [],
                              chunks := chunks ret\<rparr>)))"
proof (intro conjI impI)
  assume absent: "map_of (d_ground_truth d) k = None"
  have flag: "dataset_flag c d = Inl (KeyError k)"
    using assms(2,3) absent by (simp add: dataset_flag_def Let_def check_ground_truth_absent)
  from filter_datasets_raises[OF assms(1) flag, of "[]" "chunks ret" 0]
  obtain x where "filter_datasets c (datasets ret) [] (chunks ret) 0 = Inl x"
    by (auto simp: isl_def)
  then show "isl (filter_asmd c ret)" by (simp add: filter_asmd_def)
  assume "hd (datasets ret) = d"
  with assms(1) obtain ds where "datasets ret = d # ds" by (cases "datasets ret") auto
  with flag show "filter_asmd c ret = Inl (KeyError k)" by (simp add: filter_asmd_def)
next
  assume m: "map_of (d_ground_truth d) k = Some w \<and> w \<noteq> v"
  then show flag: "dataset_flag c d = Inr False"
    using assms(2,3) by (simp add: dataset_flag_def Let_def check_ground_truth_mismatch)
  {
    assume "filter_asmd c ret = Inr r"
    then obtain ds ps ch e where
      run: "filter_datasets c (datasets ret) [] (chunks ret) 0 = Inr (ds, ps, ch, e)"
      and r: "r = ret\<lparr>datasets := ds, paths := ps, chunks := ch\<rparr>"
      by (auto simp: filter_asmd_def split: sum.splits)
    from filter_datasets_excludes[OF run assms(1) flag] r
    show "d\<lparr>d_included := False\<rparr> \<in> set (datasets r)" by simp
  }
  {
    assume "datasets ret = [d]"
    with flag show "filter_asmd c ret
         = Inr (ret\<lparr>datasets := [d\<lparr>d_included := False\<rparr>], paths := [], chunks := chunks ret\<rparr>)"
      by (simp add: filter_asmd_def)
  }
qed

theorem filter_absent_kind_raises_witness:
  "hd (datasets one_dataset) \<in> set (datasets one_dataset)
   \<and> map_of (d_ground_truth (hd (datasets one_dataset))) ''f0'' = None
   \<and> filter_asmd (default_criteria\<lparr>c_ground_truth := [(''non-aligned'', 1), (''f0'', 1)]\<rparr>)
       one_dataset = Inl (KeyError ''f0'')
   \<and> map_of (d_ground_truth (hd (datasets one_dataset))) ''non-aligned'' = Some 1
   \<and> (1 :: int) \<noteq> 2
   \<and> filter_asmd (default_criteria\<lparr>c_ground_truth := [(''non-aligned'', 2)]\<rparr>) one_dataset
       = Inr \<lparr>datasets =
               [\<lparr>d_name = ''A'', d_included = False, d_ensemble = False,
                 d_ground_truth = [(''non-aligned'', 1)], d_songs = [one_song]\<rparr>],
             paths = [], chunks = []\<rparr>"
  using filter_absent_kind_raises
    [of "hd (datasets one_dataset)" one_dataset
        "default_criteria\<lparr>c_ground_truth := [(''non-aligned'', 1), (''f0'', 1)]\<rparr>"
        "[(''non-aligned'', 1)]" "''f0''" 1 "[]"]
    filter_absent_kind_raises
    [of "hd (datasets one_dataset)" one_dataset
        "default_criteria\<lparr>c_ground_truth := [(''non-aligned'', 2)]\<rparr>"
        "[]" "''non-aligned''" 2 "[]" 1
        "\<lparr>datasets =
               [\<lparr>d_name = ''A'', d_included = False, d_ensemble = False,
                 d_ground_truth = [(''non-aligned'', 1)], d_songs = [one_song]\<rparr>],
             paths = [], chunks = []\<rparr>"]
  by (simp add: one_dataset_def default_criteria_def)

text \<open>
  The chunks a call writes: when the chunk map is empty before the call and the datasets
  have distinct names, a call that returns leaves ranges that follow one another from 0
  to the length of the path list.
\<close>

lemma filter_songs_count:
  "filter_songs c ss ps e = Inr (ss', ps', e') \<Longrightarrow> e \<le> e' \<and> length ps' = length ps + (e' - e)"
proof (induction ss arbitrary: ps e ss')
  case Nil
  then show ?case by simp
next
  case (Cons s ss)
  show ?case
  proof (cases "song_flag c s")
    case True
    with Cons.prems obtain row ss'' where
      "filter_songs c ss (ps @ [row]) (e + 1) = Inr (ss'', ps', e')"
      by (auto split: sum.splits)
    from Cons.IH[OF this] have "e + 1 \<le> e'" "length ps' = length (ps @ [row]) + (e' - (e + 1))"
      by simp_all
    then show ?thesis by simp
  next
    case False
    with Cons.prems obtain ss'' where "filter_songs c ss ps e = Inr (ss'', ps', e')"
      by (auto split: sum.splits)
    from Cons.IH[OF this] show ?thesis by simp
  qed
qed

lemma update_fresh: "k \<notin> fst ` set al \<Longrightarrow> AList.update k v al = al @ [(k, v)]"
  by (induction al) auto

lemma update_last: "k \<notin> fst ` set al \<Longrightarrow> AList.update k v' (al @ [(k, v)]) = al @ [(k, v')]"
  by (induction al) auto

lemma contiguous_from_append:
  "contiguous_from a (rs @ rs') n = (\<exists>m. contiguous_from a rs m \<and> contiguous_from m rs' n)"
  by (induction a rs n rule: contiguous_from.induct) auto

lemma filter_datasets_chunks:
  "filter_datasets c ds ps ch e = Inr (ds', ps', ch', e') \<Longrightarrow> distinct (map d_name ds) \<Longrightarrow>
   set (map d_name ds) \<inter> fst ` set ch = {} \<Longrightarrow>
   \<exists>new. ch' = ch @ new \<and> contiguous_from e (map snd new) e'
         \<and> length ps' = length ps + (e' - e) \<and> e \<le> e'"
proof (induction ds arbitrary: ps ch e ds')
  case Nil
  then show ?case by simp
next
  case (Cons d ds)
  from Cons.prems(1) obtain b where flag: "dataset_flag c d = Inr b"
    by (auto split: sum.splits)
  show ?case
  proof (cases b)
    case True
    with Cons.prems(1) flag obtain ss1 ps1 e1 ds1 where
      songs: "filter_songs c (d_songs d) ps e = Inr (ss1, ps1, e1)" and
      rest: "filter_datasets c ds ps1
               (AList.update (d_name d) (e, e1) (AList.update (d_name d) (e, e) ch)) e1
             = Inr (ds1, ps', ch', e')"
      by (auto split: sum.splits)
    from Cons.prems(3) have fresh: "d_name d \<notin> fst ` set ch" by auto
    then have upd: "AList.update (d_name d) (e, e1) (AList.update (d_name d) (e, e) ch)
                     = ch @ [(d_name d, e, e1)]"
      by (simp add: update_fresh update_last)
    from Cons.prems(2,3) have "distinct (map d_name ds)"
      and "set (map d_name ds) \<inter> fst ` set (ch @ [(d_name d, e, e1)]) = {}"
      by auto
    from Cons.IH[OF rest[unfolded upd] this] obtain new where
      new: "ch' = (ch @ [(d_name d, e, e1)]) @ new" "contiguous_from e1 (map snd new) e'"
           "length ps' = length ps1 + (e' - e1)" "e1 \<le> e'"
      by blast
    from filter_songs_count[OF songs] have cnt: "e \<le> e1" "length ps1 = length ps + (e1 - e)"
      by simp_all
    have "ch' = ch @ ((d_name d, e, e1) # new)" using new(1) by simp
    moreover have "contiguous_from e (map snd ((d_name d, e, e1) # new)) e'"
      using new(2) cnt(1) by simp
    moreover have "length ps' = length ps + (e' - e)" using new(3,4) cnt by simp
    moreover have "e \<le> e'" using new(4) cnt(1) by simp
    ultimately show ?thesis by blast
  next
    case False
    with Cons.prems(1) flag obtain ds1 where
      rest: "filter_datasets c ds ps ch e = Inr (ds1, ps', ch', e')"
      by (auto split: sum.splits)
    from Cons.prems(2,3) have "distinct (map d_name ds)"
      and "set (map d_name ds) \<inter> fst ` set ch = {}" by auto
    from Cons.IH[OF rest this] show ?thesis .
  qed
qed

lemma contiguous_from_facts:
  "contiguous_from a rs n \<Longrightarrow>
     a \<le> n \<and> sorted (map fst rs) \<and> (\<forall>r \<in> set rs. a \<le> fst r)
     \<and> sum_list (map (\<lambda>(lo, hi). hi - lo) rs) = n - a"
proof (induction a rs n rule: contiguous_from.induct)
  case (1 a n)
  then show ?case by simp
next
  case (2 a lo hi rs n)
  then have ih: "hi \<le> n" "sorted (map fst rs)" "\<forall>r \<in> set rs. hi \<le> fst r"
    "sum_list (map (\<lambda>(lo, hi). hi - lo) rs) = n - hi" and a: "lo = a" "lo \<le> hi"
    by simp_all
  from ih a show ?case by (auto intro: order_trans)
qed

lemma filter_fresh_chunks_partition:
  assumes "chunks ret = []" and "distinct (map d_name (datasets ret))"
    and "filter_asmd c ret = Inr r"
  shows "chunks_partition r \<and> chunk_widths r = length (paths r)"
proof -
  from assms(3) obtain ds ps ch e where
    run: "filter_datasets c (datasets ret) [] (chunks ret) 0 = Inr (ds, ps, ch, e)"
    and r: "r = ret\<lparr>datasets := ds, paths := ps, chunks := ch\<rparr>"
    by (auto simp: filter_asmd_def split: sum.splits)
  from filter_datasets_chunks[OF run assms(2)] assms(1)
  have cont: "contiguous_from 0 (map snd ch) e" and len: "length ps = e" by auto
  from contiguous_from_facts[OF cont] have srt: "sorted (map fst (map snd ch))"
    and sum: "sum_list (map (\<lambda>(lo, hi). hi - lo) (map snd ch)) = e" by simp_all
  from srt have "sort_key fst (map snd ch) = map snd ch" by (rule sort_key_id_if_sorted)
  with cont len r have 1: "chunks_partition r" by (simp add: chunks_partition_def)
  have "map (\<lambda>(name, lo, hi). hi - lo) ch = map (\<lambda>(lo, hi). hi - lo) (map snd ch)"
    by (auto simp: case_prod_beta)
  then have "sum_list (map (\<lambda>(name, lo, hi). hi - lo) ch) = e" using sum by (simp only:)
  with len r have 2: "chunk_widths r = length (paths r)" by (simp add: chunk_widths_def)
  from 1 2 show ?thesis ..
qed

text \<open>
  C6. The claim says the chunk map partitions the path list after every call. A first
  call with no criteria gives the chunks A = [0, 1) and B = [1, 2). A second call on the
  result that keeps only dataset B rebuilds the path list (one row) and stores
  B = [0, 1), and leaves the entry of the excluded dataset A as it was: the ranges
  overlap and their widths add up to 2. (\<open>filter_fresh_chunks_partition\<close> above is
  the partition the call gives when no entry is left over from an earlier call.)
\<close>

theorem filter_stale_chunk:
  "map_sum id chunks (filter_asmd default_criteria two_datasets)
     = Inr [(''A'', 0, 1), (''B'', 1, 2)]
   \<and> map_sum id (\<lambda>r. (chunks r, length (paths r), chunk_widths r, chunks_partition r))
       (filter_twice default_criteria (default_criteria\<lparr>c_datasets := [''B'']\<rparr>) two_datasets)
     = Inr ([(''A'', 0, 1), (''B'', 0, 1)], 1, 2, False)"
  by (simp add: filter_twice_def filter_asmd_def default_criteria_def two_datasets_def
      dataset_flag_def song_flag_def song_row_def one_song_def chunk_widths_def
      chunks_partition_def)

subsection \<open>\<open>get_pedaling_mat\<close>\<close>

lemma cc_sustain:
  "cc_track_pedaling (g\<lparr>sustain := sustain_pedal, sostenuto := no_pedal, soft := no_pedal\<rparr>) = [[0, 0, -1, -1], [1, 127, -1, -1]]"
  by (simp add: cc_track_pedaling_def sustain_pedal_def no_pedal_def)

lemma assign_col_map:
  "assign_col (map f [0..<n]) lo hi col v =
     map (\<lambda>i. if lo \<le> i \<and> i < hi then (f i)[col := v] else f i) [0..<n]"
  by (auto simp: assign_col_def)

lemma hold_pattern:
  assumes "time2frame 0 hop winlen = Inr 0" and "time2frame 1 hop winlen = Inr 2"
  shows "(case parse_cc [[0, 0, -1, -1], [1, 127, -1, -1]] hop winlen (\<lambda>ty. (0, 0))
             (map (\<lambda>i. [real i * hop + winlen / 2, 0, 0, 0]) [0..<n]) of
            Inl e \<Rightarrow> Inl e
          | Inr (last_values, frames) \<Rightarrow> Inr (fill_tail last_values frames))
         = Inr (held_frames n hop winlen)"
  using assms
  by (auto simp: type_of_cc_def assign_col_map slice_bound_def fill_tail_def held_frames_def Let_def eval_nat_numeral)

lemma t2f:
  "time2frame 0 (1/2) 0 = Inr 0" "time2frame 1 (1/2) 0 = Inr 2"
  "time2frame 0 (1/2) (1/2) = Inr 0" "time2frame 1 (1/2) (1/2) = Inr 2"
  by (simp_all add: time2frame_def py_round_def)

lemma frame_track_hold:
  assumes "cc_track_pedaling g = [[0, 0, -1, -1], [1, 127, -1, -1]]"
    and "time2frame 0 hop winlen = Inr 0" and "time2frame 1 hop winlen = Inr 2"
    and "hop \<noteq> 0" and "0 \<le> py_int ((dur - winlen) / hop + 1) + 1"
  shows "frame_track_pedaling g dur winlen hop
           = Inr (held_frames (nat (py_int ((dur - winlen) / hop + 1) + 1)) hop winlen)"
proof -
  have nf: "nframes dur hop winlen = Inr ((dur - winlen) / hop + 1)"
    using assms(4) by (simp add: nframes_def)
  have neg: "\<not> py_int ((dur - winlen) / hop + 1) + 1 < 0"
    using assms(5) by simp
  show ?thesis
    unfolding frame_track_pedaling_def nf assms(1) sum.case Let_def if_not_P[OF neg]
    using hold_pattern[OF assms(2,3), of "nat (py_int ((dur - winlen) / hop + 1) + 1)"]
    by (simp split: sum.splits prod.splits)
qed

text \<open>
  C9, as stated, has frames timestamped 0.25, 0.75 and 1.25 for \<open>frame_len = 0\<close> and
  \<open>hop = 0.5\<close>. With a duration of 2 the six frames are timestamped 0, 0.5, 1, 1.5, 2
  and 2.5, as \<open>i * hop + frame_len / 2\<close> gives: no frame is timestamped 0.25, and the
  frame timestamped 1, before 1.25, already holds 127.
\<close>

theorem pedal_frames_no_quarter_timestamp:
  "get_pedaling_mat [sustain_gt] 2 True 0 (1 / 2)
     = Inr [[[0, 0, 0, 0], [1 / 2, 0, 0, 0], [1, 127, 0, 0], [3 / 2, 127, 0, 0],
             [2, 127, 0, 0], [5 / 2, 127, 0, 0]]]
   \<and> 1 / 4 \<notin> set (map (\<lambda>row. row ! 0)
                     [[0, 0, 0, 0], [1 / 2, 0, 0, 0], [1, 127, 0, 0], [3 / 2, 127, 0, 0],
                      [2, 127, 0, 0], [5 / 2, 127, 0, 0 :: real]])"
proof -
  have cc: "cc_track_pedaling sustain_gt = [[0, 0, - 1, - 1], [1, 127, - 1, - 1]]"
    by (simp add: cc_track_pedaling_def sustain_gt_def sustain_pedal_def no_pedal_def)
  have "get_pedaling_mat [sustain_gt] 2 True 0 (1 / 2)
          = Inr [[[0, 0, 0, 0], [1 / 2, 0, 0, 0], [1, 127, 0, 0], [3 / 2, 127, 0, 0],
                  [2, 127, 0, 0], [5 / 2, 127, 0, 0]]]"
    by (simp add: frame_track_pedaling_def cc nframes_def py_int_def t2f type_of_cc_def
        slice_bound_def assign_col_def fill_tail_def upt_rec[of _ "numeral _"]
        upt_rec[of 0 "Suc _"] eval_nat_numeral)
  then show ?thesis by simp
qed

text \<open>
  C9, amended. For the event stream sustain at (0, 0), sustain at (1, 127), with
  \<open>hop = 0.5\<close> and any duration \<open>dur \<ge> 0\<close>: frame \<open>i\<close> is timestamped
  \<open>i * hop + frame_len / 2\<close>, the sustain column holds 0 in frames 0 and 1 and 127 in
  every frame from 2 on, and the other pedal columns hold 0. With \<open>frame_len = 0\<close>
  these are the frames timestamped 0 and 0.5, and 1 or later; the timestamps 0.25, 0.75
  and 1.25 or later are those of \<open>frame_len = 0.5\<close>.
\<close>

theorem pedal_zero_order_hold:
  assumes "0 \<le> dur"
  shows "get_pedaling_mat [g\<lparr>sustain := sustain_pedal, sostenuto := no_pedal, soft := no_pedal\<rparr>]
           dur True 0 (1 / 2)
         = Inr [map (\<lambda>i. [real i * (1 / 2) + 0 / 2, if i < 2 then 0 else 127, 0, 0])
                  [0..<nat (\<lfloor>dur * 2 + 1\<rfloor> + 1)]]
       \<and> get_pedaling_mat [g\<lparr>sustain := sustain_pedal, sostenuto := no_pedal, soft := no_pedal\<rparr>]
           dur True (1 / 2) (1 / 2)
         = Inr [map (\<lambda>i. [real i * (1 / 2) + (1 / 2) / 2, if i < 2 then 0 else 127, 0, 0])
                  [0..<nat (\<lfloor>dur * 2\<rfloor> + 1)]]"
proof -
  let ?g = "g\<lparr>sustain := sustain_pedal, sostenuto := no_pedal, soft := no_pedal\<rparr>"
  have pi0: "py_int ((dur - 0) / (1 / 2) + 1) = \<lfloor>dur * 2 + 1\<rfloor>"
    using assms by (simp add: py_int_def)
  have n0: "0 \<le> py_int ((dur - 0) / (1 / 2) + 1) + 1"
    unfolding pi0 using assms by linarith
  have f0: "frame_track_pedaling ?g dur 0 (1 / 2)
              = Inr (held_frames (nat (\<lfloor>dur * 2 + 1\<rfloor> + 1)) (1 / 2) 0)"
    using frame_track_hold [OF cc_sustain t2f(1) t2f(2) _ n0, of g] unfolding pi0 by simp
  have arith: "(dur - 1 / 2) / (1 / 2) + 1 = dur * 2" by (simp add: field_simps)
  have pi1: "py_int ((dur - 1 / 2) / (1 / 2) + 1) = \<lfloor>dur * 2\<rfloor>"
    unfolding arith using assms by (simp add: py_int_def)
  have n1: "0 \<le> py_int ((dur - 1 / 2) / (1 / 2) + 1) + 1"
    unfolding pi1 using assms by linarith
  have f1: "frame_track_pedaling ?g dur (1 / 2) (1 / 2)
              = Inr (held_frames (nat (\<lfloor>dur * 2\<rfloor> + 1)) (1 / 2) (1 / 2))"
    using frame_track_hold [OF cc_sustain t2f(3) t2f(4) _ n1, of g] unfolding pi1 by simp
  from f0 f1 show ?thesis by (simp add: held_frames_def)
qed

theorem pedal_zero_order_hold_witness:
  "(0 :: real) \<le> 2
   \<and> get_pedaling_mat [sustain_gt] 2 True 0 (1 / 2)
       = Inr [map (\<lambda>i. [real i * (1 / 2) + 0 / 2, if i < 2 then 0 else 127, 0, 0]) [0..<6]]
   \<and> get_pedaling_mat [sustain_gt] 2 True (1 / 2) (1 / 2)
       = Inr [map (\<lambda>i. [real i * (1 / 2) + (1 / 2) / 2, if i < 2 then 0 else 127, 0, 0]) [0..<5]]"
proof -
  have g: "sustain_gt\<lparr>sustain := sustain_pedal, sostenuto := no_pedal, soft := no_pedal\<rparr>
             = sustain_gt"
    by (simp add: sustain_gt_def)
  have h: "(0 :: real) \<le> 2" by simp
  have n: "nat (\<lfloor>(2 :: real) * 2 + 1\<rfloor> + 1) = 6" "nat (\<lfloor>(2 :: real) * 2\<rfloor> + 1) = 5"
    by simp_all
  from pedal_zero_order_hold [OF h, of sustain_gt] show ?thesis
    unfolding g n using h by simp
qed

end
